theory Spec2Isabelle
  imports Main "HOL-Library.AList"
begin

section \<open>Data model\<close>

text \<open>
  A Go map is modelled as an association list, and a \<open>range\<close> loop visits the entries in
  list order. Go leaves the iteration order unspecified; every result below is proved for
  every association list, hence for every order in which a map may be traversed.

  Maps are reference values in Go. The inner maps \<open>map[E]S\<close> live in a heap, a list of
  map objects addressed by position; \<open>make(map[E]S)\<close> appends an empty object and yields
  its position. The outer map of the machine is owned by the machine alone; an absent
  key stands for the \<open>nil\<close> inner map that Go reads there.
\<close>

type_synonym ('k, 'v) gomap = "('k \<times> 'v) list"

type_synonym addr = nat

type_synonym ('s, 'e) heap = "('e, 's) gomap list"

text \<open>
  The field of the struct holds a map value, which is \<open>nil\<close> (\<open>None\<close>) in the zero value of
  the struct and a made map in a machine that \<open>NewStateMachine\<close> returns. Reading a \<open>nil\<close>
  map behaves as reading an empty one: \<open>transitions sm\<close> is what a read through the field
  sees. Assigning into a \<open>nil\<close> map panics.
\<close>

record 's StateMachine =
  transitions_ref :: "('s, addr) gomap option"

definition transitions :: "'s StateMachine \<Rightarrow> ('s, addr) gomap" where
  "transitions sm = (case transitions_ref sm of None \<Rightarrow> [] | Some m \<Rightarrow> m)"

record ('s, 'e) Transition =
  From :: 's
  Event :: 'e
  To :: 's

text \<open>
  The errors of the source are built by \<open>fmt.Errorf\<close>. The model keeps the arguments of
  the format: the event and the state of an invalid transition, and the step number and
  the wrapped error (\<open>%w\<close>) of an invalid path.
\<close>

datatype ('s, 'e) error =
  ErrInvalidTransition 'e 's
| ErrInvalidPath nat "('s, 'e) error"

subsection \<open>Comparison of keys\<close>

text \<open>
  A map finds a key by the comparison \<open>==\<close> of the key type. On a type admitted by
  \<open>comparable\<close> it is symmetric and transitive, but a value need not be equal to itself:
  the \<open>NaN\<close> of a state type based on \<open>float64\<close> is not. \<open>go_lookup\<close> and \<open>go_store\<close> are
  \<open>m[k]\<close> and \<open>m[k] = v\<close> with the comparison as a parameter: the store replaces the value
  of the first entry whose key compares equal and adds an entry when there is none.
  With equality as the comparison they are \<^const>\<open>map_of\<close> and \<^const>\<open>AList.update\<close>,
  which the queries below use: those are written for key types on which \<open>==\<close> is
  equality, such as the string types of the example package.
\<close>

fun go_lookup :: "('k \<Rightarrow> 'k \<Rightarrow> bool) \<Rightarrow> ('k, 'v) gomap \<Rightarrow> 'k \<Rightarrow> 'v option" where
  "go_lookup eq [] k = None"
| "go_lookup eq ((k', v) # m) k = (if eq k' k then Some v else go_lookup eq m k)"

fun go_store :: "('k \<Rightarrow> 'k \<Rightarrow> bool) \<Rightarrow> 'k \<Rightarrow> 'v \<Rightarrow> ('k, 'v) gomap \<Rightarrow> ('k, 'v) gomap" where
  "go_store eq k v [] = [(k, v)]"
| "go_store eq k v ((k', v') # m) =
    (if eq k' k then (k', v) # m else (k', v') # go_store eq k v m)"

section \<open>Construction and registration\<close>

definition NewStateMachine :: "'s StateMachine" where
  "NewStateMachine = \<lparr>transitions_ref = Some []\<rparr>"

text \<open>
  \<open>AddTransition\<close>, with the comparisons of the state type and of the event type as
  parameters. It first reads the inner map of \<open>from\<close> and, when that is \<open>nil\<close>, assigns a
  fresh map into the outer map; then it assigns into the inner map that it reads back
  from the outer map. Assigning into a \<open>nil\<close> map panics in Go, which is the result
  \<open>None\<close>: in the first assignment when the outer map is \<open>nil\<close>, in the second when the
  inner map read back is \<open>nil\<close>.
\<close>

definition AddTransition ::
  "('s \<Rightarrow> 's \<Rightarrow> bool) \<Rightarrow> ('e \<Rightarrow> 'e \<Rightarrow> bool) \<Rightarrow> ('s, 'e) heap \<times> 's StateMachine \<Rightarrow>
   's \<Rightarrow> 'e \<Rightarrow> 's \<Rightarrow> (('s, 'e) heap \<times> 's StateMachine) option" where
  "AddTransition eqS eqE w from event to =
    (let (h, sm) = w;
         made =
           (case go_lookup eqS (transitions sm) from of
              Some a \<Rightarrow> Some (h, sm)
            | None \<Rightarrow>
                (case transitions_ref sm of
                   None \<Rightarrow> None
                 | Some outer \<Rightarrow>
                     Some (h @ [[]],
                       sm\<lparr>transitions_ref := Some (go_store eqS from (length h) outer)\<rparr>)))
     in case made of
          None \<Rightarrow> None
        | Some (h1, sm1) \<Rightarrow>
            (case go_lookup eqS (transitions sm1) from of
               None \<Rightarrow> None
             | Some a \<Rightarrow> Some (h1[a := go_store eqE event to (h1 ! a)], sm1)))"


section \<open>Queries\<close>

definition CanTransition :: "('s, 'e) heap \<Rightarrow> 's StateMachine \<Rightarrow> 's \<Rightarrow> 'e \<Rightarrow> bool" where
  "CanTransition h sm from event =
    (case map_of (transitions sm) from of
       Some a \<Rightarrow> (case map_of (h ! a) event of Some _ \<Rightarrow> True | None \<Rightarrow> False)
     | None \<Rightarrow> False)"

text \<open>
  \<open>Transition\<close> returns the pair \<open>(S, error)\<close> of the source; \<open>None\<close> is the \<open>nil\<close> error.
  \<open>var zero S\<close> is the zero value of the state type, the constant \<^const>\<open>default\<close> of
  the type class of that name.
\<close>

definition Transition ::
  "('s::default, 'e) heap \<Rightarrow> 's StateMachine \<Rightarrow> 's \<Rightarrow> 'e \<Rightarrow> 's \<times> ('s, 'e) error option" where
  "Transition h sm from event =
    (case map_of (transitions sm) from of
       Some a \<Rightarrow>
         (case map_of (h ! a) event of
            Some newState \<Rightarrow> (newState, None)
          | None \<Rightarrow> (default, Some (ErrInvalidTransition event from)))
     | None \<Rightarrow> (default, Some (ErrInvalidTransition event from)))"

definition GetValidEvents :: "('s, 'e) heap \<Rightarrow> 's StateMachine \<Rightarrow> 's \<Rightarrow> 'e list" where
  "GetValidEvents h sm from =
    (case map_of (transitions sm) from of
       Some a \<Rightarrow> map fst (h ! a)
     | None \<Rightarrow> [])"

definition GetNextState :: "('s::default, 'e) heap \<Rightarrow> 's StateMachine \<Rightarrow> 's \<Rightarrow> 'e \<Rightarrow> 's \<times> bool" where
  "GetNextState h sm from event =
    (case map_of (transitions sm) from of
       Some a \<Rightarrow>
         (case map_of (h ! a) event of
            Some newState \<Rightarrow> (newState, True)
          | None \<Rightarrow> (default, False))
     | None \<Rightarrow> (default, False))"

definition IsTerminalState :: "('s, 'e) heap \<Rightarrow> 's StateMachine \<Rightarrow> 's \<Rightarrow> bool" where
  "IsTerminalState h sm state =
    (case map_of (transitions sm) state of
       Some a \<Rightarrow> length (h ! a) = 0
     | None \<Rightarrow> True)"

text \<open>
  The loop of \<open>ValidateTransitionPath\<close>, with the index \<open>i\<close> of \<open>range\<close> and the current
  state as arguments.
\<close>

fun ValidateTransitionPath_loop ::
  "('s::default, 'e) heap \<Rightarrow> 's StateMachine \<Rightarrow> nat \<Rightarrow> 's \<Rightarrow> 'e list \<Rightarrow> 's \<times> ('s, 'e) error option" where
  "ValidateTransitionPath_loop h sm i currentState [] = (currentState, None)"
| "ValidateTransitionPath_loop h sm i currentState (event # events) =
    (case Transition h sm currentState event of
       (newState, Some err) \<Rightarrow> (currentState, Some (ErrInvalidPath (i + 1) err))
     | (newState, None) \<Rightarrow> ValidateTransitionPath_loop h sm (i + 1) newState events)"

definition ValidateTransitionPath ::
  "('s::default, 'e) heap \<Rightarrow> 's StateMachine \<Rightarrow> 's \<Rightarrow> 'e list \<Rightarrow> 's \<times> ('s, 'e) error option" where
  "ValidateTransitionPath h sm start events = ValidateTransitionPath_loop h sm 0 start events"

text \<open>
  \<open>GetAllStates\<close> keeps a slice \<open>states\<close> and a map \<open>seen\<close> of type \<open>map[S]bool\<close>; reading
  \<open>seen\<close> at an absent key gives \<open>false\<close>. The inner loop ranges over the values of one
  inner map, the outer loop over the keys of the outer map, reading the inner map of each
  key back from the outer map (a \<open>nil\<close> map there has nothing to range over).
\<close>

definition seen_get :: "('s \<rightharpoonup> bool) \<Rightarrow> 's \<Rightarrow> bool" where
  "seen_get seen x = (case seen x of Some b \<Rightarrow> b | None \<Rightarrow> False)"

fun GetAllStates_inner ::
  "('e, 's) gomap \<Rightarrow> 's list \<times> ('s \<rightharpoonup> bool) \<Rightarrow> 's list \<times> ('s \<rightharpoonup> bool)" where
  "GetAllStates_inner [] (states, seen) = (states, seen)"
| "GetAllStates_inner ((event, to) # rest) (states, seen) =
    (if \<not> seen_get seen to
     then GetAllStates_inner rest (states @ [to], seen(to \<mapsto> True))
     else GetAllStates_inner rest (states, seen))"

fun GetAllStates_outer ::
  "('s, 'e) heap \<Rightarrow> 's StateMachine \<Rightarrow> 's list \<Rightarrow> 's list \<times> ('s \<rightharpoonup> bool) \<Rightarrow> 's list \<times> ('s \<rightharpoonup> bool)" where
  "GetAllStates_outer h sm [] (states, seen) = (states, seen)"
| "GetAllStates_outer h sm (from # keys) (states, seen) =
    (let (states1, seen1) =
           (if \<not> seen_get seen from
            then (states @ [from], seen(from \<mapsto> True))
            else (states, seen));
         inner = (case map_of (transitions sm) from of Some a \<Rightarrow> h ! a | None \<Rightarrow> [])
     in GetAllStates_outer h sm keys (GetAllStates_inner inner (states1, seen1)))"

definition GetAllStates :: "('s, 'e) heap \<Rightarrow> 's StateMachine \<Rightarrow> 's list" where
  "GetAllStates h sm =
    fst (GetAllStates_outer h sm (map fst (transitions sm)) ([], Map.empty))"

text \<open>
  \<open>GetTransitions\<close> makes a new map and assigns every entry of the inner map into it.
  It returns the address of the new map together with the heap that now holds it.
\<close>

fun GetTransitions_copy :: "('s, 'e) heap \<Rightarrow> addr \<Rightarrow> ('e, 's) gomap \<Rightarrow> ('s, 'e) heap" where
  "GetTransitions_copy h result [] = h"
| "GetTransitions_copy h result ((k, v) # rest) =
    GetTransitions_copy (h[result := AList.update k v (h ! result)]) result rest"

definition GetTransitions ::
  "('s, 'e) heap \<Rightarrow> 's StateMachine \<Rightarrow> 's \<Rightarrow> addr \<times> ('s, 'e) heap" where
  "GetTransitions h sm from =
    (case map_of (transitions sm) from of
       Some a \<Rightarrow>
         (let result = length h; h1 = h @ [[]]
          in (result, GetTransitions_copy h1 result (h1 ! a)))
     | None \<Rightarrow> (length h, h @ [[]]))"

section \<open>Lookups for any comparison of keys\<close>

text \<open>
  \<open>CanTransition\<close> and \<open>Transition\<close> once more, with the comparisons of the state type and
  of the event type as parameters; with equality for both they are the two queries
  above. \<open>edge_cmp\<close> is the destination that a lookup of the pair \<open>(s, e)\<close> finds.
\<close>

definition CanTransition_cmp ::
  "('s \<Rightarrow> 's \<Rightarrow> bool) \<Rightarrow> ('e \<Rightarrow> 'e \<Rightarrow> bool) \<Rightarrow> ('s, 'e) heap \<Rightarrow> 's StateMachine \<Rightarrow>
   's \<Rightarrow> 'e \<Rightarrow> bool" where
  "CanTransition_cmp eqS eqE h sm from event =
    (case go_lookup eqS (transitions sm) from of
       Some a \<Rightarrow> (case go_lookup eqE (h ! a) event of Some _ \<Rightarrow> True | None \<Rightarrow> False)
     | None \<Rightarrow> False)"

definition Transition_cmp ::
  "('s \<Rightarrow> 's \<Rightarrow> bool) \<Rightarrow> ('e \<Rightarrow> 'e \<Rightarrow> bool) \<Rightarrow> ('s::default, 'e) heap \<Rightarrow> 's StateMachine \<Rightarrow>
   's \<Rightarrow> 'e \<Rightarrow> 's \<times> ('s, 'e) error option" where
  "Transition_cmp eqS eqE h sm from event =
    (case go_lookup eqS (transitions sm) from of
       Some a \<Rightarrow>
         (case go_lookup eqE (h ! a) event of
            Some newState \<Rightarrow> (newState, None)
          | None \<Rightarrow> (default, Some (ErrInvalidTransition event from)))
     | None \<Rightarrow> (default, Some (ErrInvalidTransition event from)))"

definition edge_cmp ::
  "('s \<Rightarrow> 's \<Rightarrow> bool) \<Rightarrow> ('e \<Rightarrow> 'e \<Rightarrow> bool) \<Rightarrow> ('s, 'e) heap \<Rightarrow> 's StateMachine \<Rightarrow>
   's \<Rightarrow> 'e \<Rightarrow> 's option" where
  "edge_cmp eqS eqE h sm s e =
    (case go_lookup eqS (transitions sm) s of
       Some a \<Rightarrow> go_lookup eqE (h ! a) e
     | None \<Rightarrow> None)"

text \<open>
  What registration needs of a machine, whatever the comparison: the outer map is made,
  every inner map it names is allocated, and no two entries name the same inner map.
\<close>

definition heap_ok :: "('s, 'e) heap \<Rightarrow> 's StateMachine \<Rightarrow> bool" where
  "heap_ok h sm =
    (transitions_ref sm \<noteq> None \<and>
     distinct (map snd (transitions sm)) \<and>
     list_all (\<lambda>(s, a). a < length h) (transitions sm))"

section \<open>The edge set and the invariant of the representation\<close>

text \<open>
  \<open>edge_of h sm s e\<close> is the destination that the table holds for the pair \<open>(s, e)\<close>,
  if it holds one: the edge set of the table is the set of all \<open>(s, e, t)\<close> with
  \<open>edge_of h sm s e = Some t\<close>.
\<close>

definition edge_of :: "('s, 'e) heap \<Rightarrow> 's StateMachine \<Rightarrow> 's \<Rightarrow> 'e \<Rightarrow> 's option" where
  "edge_of h sm s e =
    (case map_of (transitions sm) s of
       Some a \<Rightarrow> map_of (h ! a) e
     | None \<Rightarrow> None)"

text \<open>
  The tables that \<open>NewStateMachine\<close> and \<open>AddTransition\<close> can produce when the keys compare
  by equality: the keys of every map are distinct, no two states share an inner map, and
  every inner map is allocated and holds at least one entry.
\<close>

definition sm_ok :: "('s, 'e) heap \<Rightarrow> 's StateMachine \<Rightarrow> bool" where
  "sm_ok h sm =
    (distinct (map fst (transitions sm)) \<and>
     distinct (map snd (transitions sm)) \<and>
     list_all (\<lambda>(s, a). a < length h \<and> h ! a \<noteq> [] \<and> distinct (map fst (h ! a)))
       (transitions sm))"

section \<open>The order workflow of the example package\<close>

datatype OrderState = OrderState string

datatype OrderEvent = OrderEvent string

instantiation OrderState :: default
begin

definition default_OrderState :: OrderState where
  "default_OrderState = OrderState []"

instance ..

end

definition OrderStatePending :: OrderState where "OrderStatePending = OrderState ''Pending''"
definition OrderStateProcessing :: OrderState where "OrderStateProcessing = OrderState ''Processing''"
definition OrderStateShipped :: OrderState where "OrderStateShipped = OrderState ''Shipped''"
definition OrderStateDelivered :: OrderState where "OrderStateDelivered = OrderState ''Delivered''"
definition OrderStateCancelled :: OrderState where "OrderStateCancelled = OrderState ''Cancelled''"
definition OrderStateRefunded :: OrderState where "OrderStateRefunded = OrderState ''Refunded''"

definition OrderEventConfirm :: OrderEvent where "OrderEventConfirm = OrderEvent ''Confirm''"
definition OrderEventShip :: OrderEvent where "OrderEventShip = OrderEvent ''Ship''"
definition OrderEventDeliver :: OrderEvent where "OrderEventDeliver = OrderEvent ''Deliver''"
definition OrderEventCancel :: OrderEvent where "OrderEventCancel = OrderEvent ''Cancel''"
definition OrderEventRefund :: OrderEvent where "OrderEventRefund = OrderEvent ''Refund''"



text \<open>The values that \<open>NewOrderStateMachine\<close> computes.\<close>

definition order_heap :: "(OrderState, OrderEvent) heap" where
  "order_heap =
    [[(OrderEventConfirm, OrderStateProcessing), (OrderEventCancel, OrderStateCancelled)],
     [(OrderEventShip, OrderStateShipped), (OrderEventCancel, OrderStateCancelled)],
     [(OrderEventDeliver, OrderStateDelivered)],
     [(OrderEventRefund, OrderStateRefunded)],
     [(OrderEventRefund, OrderStateRefunded)]]"

definition order_sm :: "OrderState StateMachine" where
  "order_sm =
    \<lparr>transitions_ref = Some
       [(OrderStatePending, 0), (OrderStateProcessing, 1), (OrderStateShipped, 2),
        (OrderStateDelivered, 3), (OrderStateCancelled, 4)]\<rparr>"

section \<open>Reference formulations\<close>

text \<open>
  The left fold of the specification: one step is a successful \<open>Transition\<close>, and the
  fold stays failed once a step has failed.
\<close>

definition step_opt :: "('s::default, 'e) heap \<Rightarrow> 's StateMachine \<Rightarrow> 's \<Rightarrow> 'e \<Rightarrow> 's option" where
  "step_opt h sm s e =
    (case Transition h sm s e of
       (t, None) \<Rightarrow> Some t
     | (t, Some err) \<Rightarrow> None)"

definition path_fold :: "('s::default, 'e) heap \<Rightarrow> 's StateMachine \<Rightarrow> 's \<Rightarrow> 'e list \<Rightarrow> 's option" where
  "path_fold h sm s0 es =
    foldl (\<lambda>acc e. case acc of None \<Rightarrow> None | Some s \<Rightarrow> step_opt h sm s e) (Some s0) es"



section \<open>A state type based on float64\<close>

text \<open>
  \<open>type FloatState float64\<close> with a \<open>String\<close> method satisfies the constraint \<open>State\<close>. Of
  \<open>float64\<close> only the comparison matters here: \<open>NaN\<close> is unequal to every value, itself
  included, and the other values compare by their value. \<open>Value n\<close> stands for the
  number \<open>n\<close>; the zero value of the type is \<open>Value 0\<close>.
\<close>

datatype FloatState = NaN | Value int

definition float_eq :: "FloatState \<Rightarrow> FloatState \<Rightarrow> bool" where
  "float_eq x y = (x \<noteq> NaN \<and> x = y)"

instantiation FloatState :: default
begin

definition default_FloatState :: FloatState where
  "default_FloatState = Value 0"

instance ..

end

section \<open>Read operations as calls\<close>

text \<open>
  A call of a read operation receives the heap and the machine and leaves a heap and a
  machine behind. The bodies of \<open>CanTransition\<close>, \<open>Transition\<close>, \<open>GetValidEvents\<close>,
  \<open>GetNextState\<close>, \<open>IsTerminalState\<close>, \<open>ValidateTransitionPath\<close> and \<open>GetAllStates\<close> contain
  no assignment to the field of the machine and none into a map reached through it
  (\<open>GetValidEvents\<close> and \<open>GetAllStates\<close> assign to their own local slice and map only), so
  these calls hand back the heap and the machine that they received. \<open>GetTransitions\<close>
  makes a map and assigns into it: its call leaves the heap that holds the new map.
\<close>

datatype ('s, 'e) read_call =
  Call_CanTransition 's 'e
| Call_Transition 's 'e
| Call_GetValidEvents 's
| Call_GetNextState 's 'e
| Call_IsTerminalState 's
| Call_ValidateTransitionPath 's "'e list"
| Call_GetAllStates
| Call_GetTransitions 's

datatype ('s, 'e) read_result =
  Res_bool bool
| Res_state_error 's "('s, 'e) error option"
| Res_events "'e list"
| Res_state_bool 's bool
| Res_states "'s list"
| Res_map addr

fun read_op ::
  "('s::default, 'e) read_call \<Rightarrow> ('s, 'e) heap \<times> 's StateMachine \<Rightarrow>
   ('s, 'e) read_result \<times> (('s, 'e) heap \<times> 's StateMachine)" where
  "read_op (Call_CanTransition from event) (h, sm) =
    (Res_bool (CanTransition h sm from event), (h, sm))"
| "read_op (Call_Transition from event) (h, sm) =
    (case Transition h sm from event of (s, err) \<Rightarrow> (Res_state_error s err, (h, sm)))"
| "read_op (Call_GetValidEvents from) (h, sm) =
    (Res_events (GetValidEvents h sm from), (h, sm))"
| "read_op (Call_GetNextState from event) (h, sm) =
    (case GetNextState h sm from event of (s, found) \<Rightarrow> (Res_state_bool s found, (h, sm)))"
| "read_op (Call_IsTerminalState state) (h, sm) =
    (Res_bool (IsTerminalState h sm state), (h, sm))"
| "read_op (Call_ValidateTransitionPath start events) (h, sm) =
    (case ValidateTransitionPath h sm start events of
       (s, err) \<Rightarrow> (Res_state_error s err, (h, sm)))"
| "read_op Call_GetAllStates (h, sm) =
    (Res_states (GetAllStates h sm), (h, sm))"
| "read_op (Call_GetTransitions from) (h, sm) =
    (case GetTransitions h sm from of (result, h') \<Rightarrow> (Res_map result, (h', sm)))"

lemmas order_defs =
  OrderStatePending_def OrderStateProcessing_def OrderStateShipped_def
  OrderStateDelivered_def OrderStateCancelled_def OrderStateRefunded_def
  OrderEventConfirm_def OrderEventShip_def OrderEventDeliver_def
  OrderEventCancel_def OrderEventRefund_def

section \<open>Association lists\<close>

lemma update_fresh: "k \<notin> fst ` set al \<Longrightarrow> AList.update k v al = al @ [(k, v)]"
  by (induction al) auto

section \<open>Maps under a comparison of keys\<close>

lemma go_lookup_eq: "go_lookup (=) m k = map_of m k"
  by (induction m) auto

lemma go_store_eq: "go_store (=) k v m = AList.update k v m"
  by (induction m) auto

lemma go_lookup_SomeD: "go_lookup eq m k = Some v \<Longrightarrow> \<exists>k'. (k', v) \<in> set m \<and> eq k' k"
  by (induction m) (auto split: if_splits)

lemma go_lookup_irrefl:
  assumes "symp eq" and "transp eq" and "\<not> eq k k"
  shows "go_lookup eq m k = None"
proof (cases "go_lookup eq m k")
  case None
  then show ?thesis .
next
  case (Some v)
  then obtain k' where "eq k' k" by (auto dest: go_lookup_SomeD)
  with assms(1) have "eq k k'" by (auto dest: sympD)
  with \<open>eq k' k\<close> assms(2) have "eq k k" by (auto dest: transpD)
  with assms(3) show ?thesis by simp
qed

lemma go_lookup_cong:
  assumes "symp eq" and "transp eq" and "eq k k'"
  shows "go_lookup eq m k = go_lookup eq m k'"
proof (induction m)
  case Nil
  show ?case by simp
next
  case (Cons p m)
  obtain a v where p: "p = (a, v)" by (cases p)
  have "eq a k = eq a k'"
  proof
    assume "eq a k"
    with assms(2,3) show "eq a k'" by (auto dest: transpD)
  next
    assume "eq a k'"
    moreover from assms(1,3) have "eq k' k" by (auto dest: sympD)
    ultimately show "eq a k" using assms(2) by (auto dest: transpD)
  qed
  with Cons p show ?case by simp
qed

lemma go_store_fresh: "go_lookup eq m k = None \<Longrightarrow> go_store eq k v m = m @ [(k, v)]"
  by (induction m) (auto split: if_splits)

lemma go_lookup_store:
  assumes s: "symp eq" and t: "transp eq"
  shows "go_lookup eq (go_store eq k v m) k' = (if eq k k' then Some v else go_lookup eq m k')"
proof (induction m)
  case Nil
  show ?case by simp
next
  case (Cons p m)
  obtain a w where p: "p = (a, w)" by (cases p)
  show ?case
  proof (cases "eq a k")
    case True
    have "eq a k' = eq k k'"
    proof
      assume "eq a k'"
      moreover from s True have "eq k a" by (auto dest: sympD)
      ultimately show "eq k k'" using t by (auto dest: transpD)
    next
      assume "eq k k'"
      with True t show "eq a k'" by (auto dest: transpD)
    qed
    with True p show ?thesis by simp
  next
    case False
    have "\<not> (eq a k' \<and> eq k k')"
    proof
      assume c: "eq a k' \<and> eq k k'"
      with s have "eq k' k" by (auto dest: sympD)
      with c t have "eq a k" by (auto dest: transpD)
      with False show False by simp
    qed
    with False p Cons show ?thesis by auto
  qed
qed

section \<open>Lookups in terms of the edge set\<close>

lemma Transition_edge:
  "Transition h sm s e =
    (case edge_of h sm s e of
       Some t \<Rightarrow> (t, None)
     | None \<Rightarrow> (default, Some (ErrInvalidTransition e s)))"
  by (simp add: Transition_def edge_of_def split: option.splits)

lemma CanTransition_edge: "CanTransition h sm s e = (edge_of h sm s e \<noteq> None)"
  by (auto simp add: CanTransition_def edge_of_def split: option.splits)

lemma GetNextState_edge:
  "GetNextState h sm s e =
    (case edge_of h sm s e of Some t \<Rightarrow> (t, True) | None \<Rightarrow> (default, False))"
  by (simp add: GetNextState_def edge_of_def split: option.splits)

section \<open>The invariant\<close>

lemma sm_ok_New: "sm_ok h NewStateMachine"
  by (simp add: sm_ok_def NewStateMachine_def transitions_def)

lemma sm_ok_addr:
  "sm_ok h sm \<Longrightarrow> map_of (transitions sm) s = Some a \<Longrightarrow>
   a < length h \<and> h ! a \<noteq> [] \<and> distinct (map fst (h ! a))"
  by (auto simp add: sm_ok_def list_all_iff dest!: map_of_SomeD)

lemma sm_ok_inj:
  "sm_ok h sm \<Longrightarrow> map_of (transitions sm) s = Some a \<Longrightarrow>
   map_of (transitions sm) s' = Some a \<Longrightarrow> s' = s"
proof -
  assume ok: "sm_ok h sm" and 1: "map_of (transitions sm) s = Some a"
    and 2: "map_of (transitions sm) s' = Some a"
  from 1 2 have "(s, a) \<in> set (transitions sm)" "(s', a) \<in> set (transitions sm)"
    by (auto dest: map_of_SomeD)
  moreover from ok have "inj_on snd (set (transitions sm))"
    by (simp add: sm_ok_def distinct_map)
  ultimately have "(s', a) = (s, a)" by (intro inj_onD [where f = snd]) simp_all
  then show ?thesis by simp
qed

section \<open>The order machine\<close>

lemma order_ok: "sm_ok order_heap order_sm"
  by (simp add: sm_ok_def order_heap_def order_sm_def transitions_def order_defs)

text \<open>
  C7. For every table and every state \<open>s\<close>, validating the empty event sequence from \<open>s\<close>
  returns \<open>s\<close> unchanged together with the \<open>nil\<close> error.
\<close>

theorem ValidateTransitionPath_empty:
  "ValidateTransitionPath h sm s [] = (s, None)"
  by (simp add: ValidateTransitionPath_def)

theorem ValidateTransitionPath_empty_witness:
  "ValidateTransitionPath order_heap order_sm OrderStatePending [] = (OrderStatePending, None)"
  using ValidateTransitionPath_empty [of order_heap order_sm OrderStatePending] by simp

text \<open>
  C9. When \<open>Transition\<close> fails, the state it returns beside the error is the zero value of
  the state type, whatever the input state was.
\<close>

theorem Transition_error_zero:
  "snd (Transition h sm from event) \<noteq> None \<Longrightarrow> fst (Transition h sm from event) = default"
  by (simp add: Transition_def split: option.splits)

theorem Transition_error_zero_witness:
  "snd (Transition order_heap order_sm OrderStateShipped OrderEventCancel) \<noteq> None \<and>
   fst (Transition order_heap order_sm OrderStateShipped OrderEventCancel) = OrderState [] \<and>
   OrderState [] \<noteq> OrderStateShipped"
proof -
  have e: "snd (Transition order_heap order_sm OrderStateShipped OrderEventCancel) \<noteq> None"
    by (simp add: Transition_def order_heap_def order_sm_def transitions_def order_defs)
  from Transition_error_zero [OF e] e show ?thesis
    by (simp add: default_OrderState_def OrderStateShipped_def)
qed

section \<open>Claims about single lookups\<close>

text \<open>
  C2. For every table and every pair of a state and an event for which the table holds
  no edge, the three lookups agree on the miss: \<open>CanTransition\<close> is false, \<open>Transition\<close>
  fails with the invalid-transition error for that event and state, and \<open>GetNextState\<close>
  reports absence. A state that is not a key of the table at all is such a miss, and
  \<open>CanTransition\<close> answers false there.
\<close>

theorem lookup_miss_agree:
  "(edge_of h sm from event = None \<longrightarrow>
      CanTransition h sm from event = False \<and>
      Transition h sm from event = (default, Some (ErrInvalidTransition event from)) \<and>
      GetNextState h sm from event = (default, False)) \<and>
   (map_of (transitions sm) from = None \<longrightarrow>
      edge_of h sm from event = None \<and> CanTransition h sm from event = False)"
  by (simp add: CanTransition_edge Transition_edge GetNextState_edge) (simp add: edge_of_def)

theorem lookup_miss_agree_witness:
  "edge_of order_heap order_sm OrderStateShipped OrderEventCancel = None \<and>
   CanTransition order_heap order_sm OrderStateShipped OrderEventCancel = False \<and>
   Transition order_heap order_sm OrderStateShipped OrderEventCancel =
     (OrderState [], Some (ErrInvalidTransition OrderEventCancel OrderStateShipped)) \<and>
   GetNextState order_heap order_sm OrderStateShipped OrderEventCancel = (OrderState [], False) \<and>
   map_of (transitions order_sm) OrderStateRefunded = None \<and>
   CanTransition order_heap order_sm OrderStateRefunded OrderEventRefund = False"
proof -
  have 1: "edge_of order_heap order_sm OrderStateShipped OrderEventCancel = None"
    by (simp add: edge_of_def order_heap_def order_sm_def transitions_def order_defs)
  have 2: "map_of (transitions order_sm) OrderStateRefunded = None"
    by (simp add: order_sm_def transitions_def order_defs)
  from lookup_miss_agree [of order_heap order_sm OrderStateShipped OrderEventCancel]
    lookup_miss_agree [of order_heap order_sm OrderStateRefunded OrderEventRefund] 1 2
  show ?thesis by (simp add: default_OrderState_def)
qed

text \<open>
  C4. For every table and every state \<open>s\<close>: \<open>IsTerminalState\<close> is true exactly when the
  table holds no edge out of \<open>s\<close>, in particular when \<open>s\<close> is not a key of the table;
  for such a state \<open>GetValidEvents\<close> is empty; and in general \<open>GetValidEvents\<close> lists
  exactly the events under which the table holds an edge out of \<open>s\<close>, each of them once
  in a table the machine can be in.
\<close>

theorem terminal_and_valid_events:
  "IsTerminalState h sm s = (\<forall>e. edge_of h sm s e = None) \<and>
   (map_of (transitions sm) s = None \<longrightarrow> IsTerminalState h sm s) \<and>
   (IsTerminalState h sm s \<longrightarrow> GetValidEvents h sm s = []) \<and>
   set (GetValidEvents h sm s) = {e. \<exists>t. edge_of h sm s e = Some t} \<and>
   (sm_ok h sm \<longrightarrow> distinct (GetValidEvents h sm s))"
proof (cases "map_of (transitions sm) s")
  case None
  then show ?thesis by (simp add: IsTerminalState_def GetValidEvents_def edge_of_def)
next
  case (Some a)
  have "(h ! a = []) = (\<forall>e. map_of (h ! a) e = None)"
    using map_of_eq_empty_iff [of "h ! a"] by (auto simp add: fun_eq_iff)
  moreover have "fst ` set (h ! a) = {e. \<exists>t. map_of (h ! a) e = Some t}"
    using dom_map_of_conv_image_fst [of "h ! a"] by (auto simp add: dom_def)
  moreover have "sm_ok h sm \<longrightarrow> distinct (map fst (h ! a))"
    using Some by (auto dest: sm_ok_addr)
  ultimately show ?thesis using Some
    by (simp add: IsTerminalState_def GetValidEvents_def edge_of_def)
qed

theorem terminal_and_valid_events_witness:
  "IsTerminalState order_heap order_sm OrderStateRefunded = True \<and>
   map_of (transitions order_sm) OrderStateRefunded = None \<and>
   GetValidEvents order_heap order_sm OrderStateRefunded = [] \<and>
   sm_ok order_heap order_sm \<and>
   distinct (GetValidEvents order_heap order_sm OrderStatePending) \<and>
   {e. \<exists>t. edge_of order_heap order_sm OrderStatePending e = Some t}
     = {OrderEventConfirm, OrderEventCancel}"
proof -
  have 1: "map_of (transitions order_sm) OrderStateRefunded = None"
    by (simp add: order_sm_def transitions_def order_defs)
  have 2: "set (GetValidEvents order_heap order_sm OrderStatePending)
    = {OrderEventConfirm, OrderEventCancel}"
    by (simp add: GetValidEvents_def order_heap_def order_sm_def transitions_def order_defs)
  note r = terminal_and_valid_events [of order_heap order_sm OrderStateRefunded]
  note p = terminal_and_valid_events [of order_heap order_sm OrderStatePending]
  from r 1 have 3: "IsTerminalState order_heap order_sm OrderStateRefunded" by blast
  with r have 4: "GetValidEvents order_heap order_sm OrderStateRefunded = []" by blast
  from p order_ok have 5: "distinct (GetValidEvents order_heap order_sm OrderStatePending)"
    by blast
  from p 2 have 6: "{e. \<exists>t. edge_of order_heap order_sm OrderStatePending e = Some t}
    = {OrderEventConfirm, OrderEventCancel}" by simp
  from 1 3 4 5 6 order_ok show ?thesis by simp
qed

section \<open>Path validation\<close>

lemma foldl_failed:
  "foldl (\<lambda>acc e. case acc of None \<Rightarrow> None | Some s \<Rightarrow> f s e) None es = None"
  by (induction es) simp_all

lemma path_fold_Nil: "path_fold h sm s [] = Some s"
  by (simp add: path_fold_def)

lemma path_fold_Cons:
  "path_fold h sm s (e # es) =
    (case step_opt h sm s e of None \<Rightarrow> None | Some s' \<Rightarrow> path_fold h sm s' es)"
  by (cases "step_opt h sm s e") (simp_all add: path_fold_def foldl_failed)

lemma path_fold_snoc:
  "path_fold h sm s (es @ [e]) =
    (case path_fold h sm s es of None \<Rightarrow> None | Some s' \<Rightarrow> step_opt h sm s' e)"
  by (simp add: path_fold_def)

lemma path_fold_prefix:
  "path_fold h sm s (es @ es') \<noteq> None \<Longrightarrow> path_fold h sm s es \<noteq> None"
  by (cases "path_fold h sm s es") (simp_all add: path_fold_def foldl_failed)

lemma path_fold_take:
  "path_fold h sm s es \<noteq> None \<Longrightarrow> path_fold h sm s (take k es) \<noteq> None"
  using path_fold_prefix [of h sm s "take k es" "drop k es"] by simp

lemma step_opt_edge: "step_opt h sm s e = edge_of h sm s e"
  by (simp add: step_opt_def Transition_edge split: option.splits)

text \<open>
  The loop started at index \<open>i\<close> in state \<open>s\<close>: either every step succeeds and the fold
  gives the returned state, or the loop stops at the first offset \<open>j\<close> whose event has no
  edge from the state \<open>cur\<close> that the fold reaches after \<open>j\<close> events, returning \<open>cur\<close> and
  the step number \<open>i + j + 1\<close>.
\<close>

lemma loop_cases:
  "(\<exists>final. ValidateTransitionPath_loop h sm i s es = (final, None) \<and>
      path_fold h sm s es = Some final) \<or>
   (\<exists>j cur. j < length es \<and>
      ValidateTransitionPath_loop h sm i s es =
        (cur, Some (ErrInvalidPath (i + j + 1) (ErrInvalidTransition (es ! j) cur))) \<and>
      path_fold h sm s (take j es) = Some cur \<and>
      edge_of h sm cur (es ! j) = None)"
proof (induction es arbitrary: i s)
  case Nil
  show ?case by (simp add: path_fold_Nil)
next
  case (Cons e es)
  show ?case
  proof (cases "edge_of h sm s e")
    case None
    then have "ValidateTransitionPath_loop h sm i s (e # es) =
        (s, Some (ErrInvalidPath (i + 0 + 1) (ErrInvalidTransition ((e # es) ! 0) s)))"
      by (simp add: Transition_edge)
    moreover have "path_fold h sm s (take 0 (e # es)) = Some s" by (simp add: path_fold_Nil)
    moreover have "edge_of h sm s ((e # es) ! 0) = None" using None by simp
    ultimately show ?thesis by blast
  next
    case (Some s')
    then have loop: "ValidateTransitionPath_loop h sm i s (e # es) =
        ValidateTransitionPath_loop h sm (i + 1) s' es"
      by (simp add: Transition_edge)
    have fold: "path_fold h sm s (e # xs) = path_fold h sm s' xs" for xs
      using Some by (simp add: path_fold_Cons step_opt_edge)
    from Cons.IH [of "i + 1" s'] show ?thesis
    proof (elim disjE exE conjE)
      fix final
      assume "ValidateTransitionPath_loop h sm (i + 1) s' es = (final, None)"
        and "path_fold h sm s' es = Some final"
      then show ?thesis using loop fold by simp
    next
      fix j cur
      assume j: "j < length es"
        and l: "ValidateTransitionPath_loop h sm (i + 1) s' es =
          (cur, Some (ErrInvalidPath (i + 1 + j + 1) (ErrInvalidTransition (es ! j) cur)))"
        and f: "path_fold h sm s' (take j es) = Some cur"
        and n: "edge_of h sm cur (es ! j) = None"
      have "Suc j < length (e # es)" using j by simp
      moreover have "ValidateTransitionPath_loop h sm i s (e # es) =
          (cur, Some (ErrInvalidPath (i + Suc j + 1) (ErrInvalidTransition ((e # es) ! Suc j) cur)))"
        using loop l by simp
      moreover have "path_fold h sm s (take (Suc j) (e # es)) = Some cur"
        using f fold by simp
      moreover have "edge_of h sm cur ((e # es) ! Suc j) = None" using n by simp
      ultimately show ?thesis by blast
    qed
  qed
qed

lemma step_ok_iff: "(snd (Transition h sm s e) = None) = (edge_of h sm s e \<noteq> None)"
  by (simp add: Transition_edge split: option.splits)

lemma path_fold_all_steps:
  assumes "path_fold h sm s0 es = Some final" and "k < length es"
  shows "\<exists>s. path_fold h sm s0 (take k es) = Some s \<and> snd (Transition h sm s (es ! k)) = None"
proof -
  from assms(1) have "path_fold h sm s0 (take (Suc k) es) \<noteq> None"
    by (simp add: path_fold_take)
  then have "path_fold h sm s0 (take k es @ [es ! k]) \<noteq> None"
    using assms(2) by (simp add: take_Suc_conv_app_nth)
  then show ?thesis
    by (cases "path_fold h sm s0 (take k es)")
      (simp_all add: path_fold_snoc step_opt_edge step_ok_iff)
qed

text \<open>
  C1. For every table, start state and event sequence, \<open>ValidateTransitionPath\<close> is the
  left fold of \<open>Transition\<close> over the events. It returns no error exactly when every
  step succeeds from the state that the fold has reached before it, and then it returns
  the state of the whole fold. Otherwise the error carries a step number \<open>i\<close> between 1
  and the number of events such that all earlier steps succeed, the fold reaches a state
  \<open>s\<close> after \<open>i - 1\<close> events, \<open>Transition\<close> fails for the \<open>i\<close>-th event from \<open>s\<close>, and the
  error wraps the invalid-transition error of that event and that state.
\<close>

theorem ValidateTransitionPath_fold:
  "((snd (ValidateTransitionPath h sm s0 es) = None) =
      (\<forall>k<length es. \<exists>s. path_fold h sm s0 (take k es) = Some s \<and>
         snd (Transition h sm s (es ! k)) = None)) \<and>
   (snd (ValidateTransitionPath h sm s0 es) = None \<longrightarrow>
      path_fold h sm s0 es = Some (fst (ValidateTransitionPath h sm s0 es))) \<and>
   (snd (ValidateTransitionPath h sm s0 es) \<noteq> None \<longrightarrow>
      (\<exists>i s. 1 \<le> i \<and> i \<le> length es \<and>
         (\<forall>k<i - 1. \<exists>s'. path_fold h sm s0 (take k es) = Some s' \<and>
            snd (Transition h sm s' (es ! k)) = None) \<and>
         path_fold h sm s0 (take (i - 1) es) = Some s \<and>
         snd (Transition h sm s (es ! (i - 1))) =
           Some (ErrInvalidTransition (es ! (i - 1)) s) \<and>
         snd (ValidateTransitionPath h sm s0 es) =
           Some (ErrInvalidPath i (ErrInvalidTransition (es ! (i - 1)) s))))"
proof -
  from loop_cases [of h sm 0 s0 es] show ?thesis
  proof (elim disjE exE conjE)
    fix final
    assume l: "ValidateTransitionPath_loop h sm 0 s0 es = (final, None)"
      and f: "path_fold h sm s0 es = Some final"
    from f have "\<forall>k<length es. \<exists>s. path_fold h sm s0 (take k es) = Some s \<and>
        snd (Transition h sm s (es ! k)) = None"
      by (blast intro: path_fold_all_steps)
    then show ?thesis using l f by (simp add: ValidateTransitionPath_def)
  next
    fix j cur
    assume j: "j < length es"
      and l: "ValidateTransitionPath_loop h sm 0 s0 es =
        (cur, Some (ErrInvalidPath (0 + j + 1) (ErrInvalidTransition (es ! j) cur)))"
      and f: "path_fold h sm s0 (take j es) = Some cur"
      and n: "edge_of h sm cur (es ! j) = None"
    have bad: "\<not> (\<forall>k<length es. \<exists>s. path_fold h sm s0 (take k es) = Some s \<and>
        snd (Transition h sm s (es ! k)) = None)"
      using j f n by (auto simp add: step_ok_iff)
    have before: "\<forall>k<j. \<exists>s'. path_fold h sm s0 (take k es) = Some s' \<and>
        snd (Transition h sm s' (es ! k)) = None"
    proof (intro allI impI)
      fix k assume k: "k < j"
      then have "k < length (take j es)" using j by simp
      from path_fold_all_steps [OF f this] k show
        "\<exists>s'. path_fold h sm s0 (take k es) = Some s' \<and> snd (Transition h sm s' (es ! k)) = None"
        by (simp add: min_def)
    qed
    have t: "snd (Transition h sm cur (es ! j)) = Some (ErrInvalidTransition (es ! j) cur)"
      using n by (simp add: Transition_edge)
    have "\<exists>i s. 1 \<le> i \<and> i \<le> length es \<and>
         (\<forall>k<i - 1. \<exists>s'. path_fold h sm s0 (take k es) = Some s' \<and>
            snd (Transition h sm s' (es ! k)) = None) \<and>
         path_fold h sm s0 (take (i - 1) es) = Some s \<and>
         snd (Transition h sm s (es ! (i - 1))) =
           Some (ErrInvalidTransition (es ! (i - 1)) s) \<and>
         snd (ValidateTransitionPath h sm s0 es) =
           Some (ErrInvalidPath i (ErrInvalidTransition (es ! (i - 1)) s))"
      using j before f t l
      by (intro exI [of _ "Suc j"] exI [of _ cur]) (simp add: ValidateTransitionPath_def)
    then show ?thesis using bad l by (simp add: ValidateTransitionPath_def)
  qed
qed

text \<open>
  C10. When \<open>ValidateTransitionPath\<close> fails, the state it returns beside the error is the
  state at which the failing step was tried: with \<open>i\<close> the step number in the error, it is
  the state that the fold reaches after the first \<open>i - 1\<close> events, the start state when
  \<open>i = 1\<close>, and the state named in the wrapped invalid-transition error.
\<close>

theorem ValidateTransitionPath_error_state:
  assumes "ValidateTransitionPath h sm start events = (cur, Some err)"
  shows "\<exists>i. 1 \<le> i \<and> i \<le> length events \<and>
    err = ErrInvalidPath i (ErrInvalidTransition (events ! (i - 1)) cur) \<and>
    path_fold h sm start (take (i - 1) events) = Some cur \<and>
    (i = 1 \<longrightarrow> cur = start)"
proof -
  from loop_cases [of h sm 0 start events] assms
  obtain j where j: "j < length events"
    and e: "err = ErrInvalidPath (j + 1) (ErrInvalidTransition (events ! j) cur)"
    and f: "path_fold h sm start (take j events) = Some cur"
    by (auto simp add: ValidateTransitionPath_def)
  have "j + 1 = 1 \<longrightarrow> cur = start" using f by (auto simp add: path_fold_Nil)
  with j e f show ?thesis by (intro exI [of _ "j + 1"]) simp
qed

lemma order_path_ok:
  "ValidateTransitionPath order_heap order_sm OrderStatePending
     [OrderEventConfirm, OrderEventShip, OrderEventDeliver] = (OrderStateDelivered, None)"
  by (simp add: ValidateTransitionPath_def Transition_def order_heap_def order_sm_def transitions_def order_defs)

lemma order_path_bad:
  "ValidateTransitionPath order_heap order_sm OrderStatePending
     [OrderEventConfirm, OrderEventShip, OrderEventCancel] =
   (OrderStateShipped,
    Some (ErrInvalidPath 3 (ErrInvalidTransition OrderEventCancel OrderStateShipped)))"
  by (simp add: ValidateTransitionPath_def Transition_def order_heap_def order_sm_def transitions_def order_defs)

theorem ValidateTransitionPath_fold_witness:
  "snd (ValidateTransitionPath order_heap order_sm OrderStatePending
     [OrderEventConfirm, OrderEventShip, OrderEventDeliver]) = None \<and>
   path_fold order_heap order_sm OrderStatePending
     [OrderEventConfirm, OrderEventShip, OrderEventDeliver] = Some OrderStateDelivered \<and>
   snd (ValidateTransitionPath order_heap order_sm OrderStatePending
     [OrderEventConfirm, OrderEventShip, OrderEventCancel]) =
     Some (ErrInvalidPath 3 (ErrInvalidTransition OrderEventCancel OrderStateShipped)) \<and>
   \<not> (\<forall>k<length [OrderEventConfirm, OrderEventShip, OrderEventCancel].
      \<exists>s. path_fold order_heap order_sm OrderStatePending
        (take k [OrderEventConfirm, OrderEventShip, OrderEventCancel]) = Some s \<and>
      snd (Transition order_heap order_sm s
        ([OrderEventConfirm, OrderEventShip, OrderEventCancel] ! k)) = None)"
proof -
  note good = ValidateTransitionPath_fold [of order_heap order_sm OrderStatePending
      "[OrderEventConfirm, OrderEventShip, OrderEventDeliver]"]
  note bad = ValidateTransitionPath_fold [of order_heap order_sm OrderStatePending
      "[OrderEventConfirm, OrderEventShip, OrderEventCancel]"]
  have g: "snd (ValidateTransitionPath order_heap order_sm OrderStatePending
      [OrderEventConfirm, OrderEventShip, OrderEventDeliver]) = None"
    and f: "fst (ValidateTransitionPath order_heap order_sm OrderStatePending
      [OrderEventConfirm, OrderEventShip, OrderEventDeliver]) = OrderStateDelivered"
    by (simp_all add: order_path_ok)
  have b: "snd (ValidateTransitionPath order_heap order_sm OrderStatePending
      [OrderEventConfirm, OrderEventShip, OrderEventCancel]) =
      Some (ErrInvalidPath 3 (ErrInvalidTransition OrderEventCancel OrderStateShipped))"
    by (simp add: order_path_bad)
  then have b': "snd (ValidateTransitionPath order_heap order_sm OrderStatePending
      [OrderEventConfirm, OrderEventShip, OrderEventCancel]) \<noteq> None"
    by simp
  from good g f have 1: "path_fold order_heap order_sm OrderStatePending
     [OrderEventConfirm, OrderEventShip, OrderEventDeliver] = Some OrderStateDelivered"
    by metis
  from bad b' have 3: "\<not> (\<forall>k<length [OrderEventConfirm, OrderEventShip, OrderEventCancel].
      \<exists>s. path_fold order_heap order_sm OrderStatePending
        (take k [OrderEventConfirm, OrderEventShip, OrderEventCancel]) = Some s \<and>
      snd (Transition order_heap order_sm s
        ([OrderEventConfirm, OrderEventShip, OrderEventCancel] ! k)) = None)"
    by blast
  from g 1 b 3 show ?thesis by blast
qed

theorem ValidateTransitionPath_error_state_witness:
  "ValidateTransitionPath order_heap order_sm OrderStatePending
     [OrderEventConfirm, OrderEventShip, OrderEventCancel] =
   (OrderStateShipped,
    Some (ErrInvalidPath 3 (ErrInvalidTransition OrderEventCancel OrderStateShipped))) \<and>
   path_fold order_heap order_sm OrderStatePending [OrderEventConfirm, OrderEventShip]
     = Some OrderStateShipped \<and>
   OrderStateShipped \<noteq> default"
proof -
  from ValidateTransitionPath_error_state [OF order_path_bad]
  have "path_fold order_heap order_sm OrderStatePending [OrderEventConfirm, OrderEventShip]
     = Some OrderStateShipped"
    by auto
  then show ?thesis
    by (simp add: order_path_bad) (simp add: default_OrderState_def OrderStateShipped_def)
qed

section \<open>Enumeration of the states\<close>

lemma seen_get_upd: "seen_get (seen(x \<mapsto> True)) y = (y = x \<or> seen_get seen y)"
  by (simp add: seen_get_def)

lemma GetAllStates_inner_inv:
  assumes "distinct states" and "\<forall>x. seen_get seen x = (x \<in> set states)"
    and "GetAllStates_inner m (states, seen) = (states', seen')"
  shows "distinct states' \<and> (\<forall>x. seen_get seen' x = (x \<in> set states')) \<and>
    set states' = set states \<union> snd ` set m"
  using assms
proof (induction m arbitrary: states seen)
  case Nil
  then show ?case by simp
next
  case (Cons p m)
  obtain event to where p: "p = (event, to)" by (cases p)
  show ?case
  proof (cases "to \<in> set states")
    case True
    with Cons.prems p have "GetAllStates_inner m (states, seen) = (states', seen')" by simp
    from Cons.IH [OF Cons.prems(1) Cons.prems(2) this] True p show ?thesis by auto
  next
    case False
    with Cons.prems p
    have run: "GetAllStates_inner m (states @ [to], seen(to \<mapsto> True)) = (states', seen')"
      by simp
    have d: "distinct (states @ [to])" using Cons.prems(1) False by simp
    have s: "\<forall>x. seen_get (seen(to \<mapsto> True)) x = (x \<in> set (states @ [to]))"
      using Cons.prems(2) by (auto simp add: seen_get_upd)
    from Cons.IH [OF d s run] p show ?thesis by auto
  qed
qed

lemma GetAllStates_outer_inv:
  assumes "distinct states" and "\<forall>x. seen_get seen x = (x \<in> set states)"
    and "GetAllStates_outer h sm keys (states, seen) = (states', seen')"
  shows "distinct states' \<and> (\<forall>x. seen_get seen' x = (x \<in> set states')) \<and>
    set states' = set states \<union> set keys \<union>
      (\<Union>k\<in>set keys. snd ` set (case map_of (transitions sm) k of Some a \<Rightarrow> h ! a | None \<Rightarrow> []))"
  using assms
proof (induction keys arbitrary: states seen)
  case Nil
  then show ?case by simp
next
  case (Cons k keys)
  let ?inner = "case map_of (transitions sm) k of Some a \<Rightarrow> h ! a | None \<Rightarrow> []"
  obtain states1 seen1 where first:
    "(if \<not> seen_get seen k then (states @ [k], seen(k \<mapsto> True)) else (states, seen))
      = (states1, seen1)"
    by (cases "seen_get seen k") simp_all
  have k: "seen_get seen k = (k \<in> set states)" using Cons.prems(2) by blast
  have d1: "distinct states1 \<and> (\<forall>x. seen_get seen1 x = (x \<in> set states1)) \<and>
      set states1 = set states \<union> {k}"
  proof (cases "k \<in> set states")
    case True
    with first k have "states1 = states" "seen1 = seen" by simp_all
    with True Cons.prems(1,2) show ?thesis by blast
  next
    case False
    with first k have eq: "states1 = states @ [k]" "seen1 = seen(k \<mapsto> True)" by simp_all
    have "\<forall>x. seen_get (seen(k \<mapsto> True)) x = (x \<in> set (states @ [k]))"
      using Cons.prems(2) by (auto simp add: seen_get_upd)
    with False Cons.prems(1) show ?thesis unfolding eq by simp
  qed
  then have s1: "\<forall>x. seen_get seen1 x = (x \<in> set states1)"
    and e1: "set states1 = set states \<union> {k}" by blast+
  from d1 have d1: "distinct states1" by blast
  obtain states2 seen2 where inner: "GetAllStates_inner ?inner (states1, seen1) = (states2, seen2)"
    by (cases "GetAllStates_inner ?inner (states1, seen1)")
  from GetAllStates_inner_inv [OF d1 s1 inner]
  have d2: "distinct states2" and s2: "\<forall>x. seen_get seen2 x = (x \<in> set states2)"
    and e2: "set states2 = set states1 \<union> snd ` set ?inner"
    by simp_all
  have "GetAllStates_outer h sm (k # keys) (states, seen) =
      GetAllStates_outer h sm keys (GetAllStates_inner ?inner (states1, seen1))"
    by (simp only: GetAllStates_outer.simps Let_def first prod.case)
  with Cons.prems(3) have "GetAllStates_outer h sm keys (states2, seen2) = (states', seen')"
    by (simp only: inner)
  from Cons.IH [OF d2 s2 this]
  have d': "distinct states'" and s': "\<forall>x. seen_get seen' x = (x \<in> set states')"
    and e': "set states' = set states2 \<union> set keys \<union>
      (\<Union>k\<in>set keys. snd ` set (case map_of (transitions sm) k of Some a \<Rightarrow> h ! a | None \<Rightarrow> []))"
    by blast+
  have "set states' = set states \<union> set (k # keys) \<union>
      (\<Union>k\<in>set (k # keys). snd ` set (case map_of (transitions sm) k of Some a \<Rightarrow> h ! a | None \<Rightarrow> []))"
    unfolding e' e2 e1 by (simp add: Un_ac)
  with d' s' show ?case by blast
qed

lemma sm_ok_sources:
  assumes "sm_ok h sm"
  shows "fst ` set (transitions sm) = {s. \<exists>e t. edge_of h sm s e = Some t}"
proof (intro set_eqI iffI)
  fix s assume "s \<in> fst ` set (transitions sm)"
  then obtain a where a: "map_of (transitions sm) s = Some a"
    by (cases "map_of (transitions sm) s") (auto simp add: map_of_eq_None_iff)
  with assms have "h ! a \<noteq> []" by (auto dest: sm_ok_addr)
  then have "map_of (h ! a) \<noteq> Map.empty" by (simp add: map_of_eq_empty_iff)
  then obtain e t where "map_of (h ! a) e = Some t" by (auto simp add: fun_eq_iff)
  with a show "s \<in> {s. \<exists>e t. edge_of h sm s e = Some t}" by (auto simp add: edge_of_def)
next
  fix s assume "s \<in> {s. \<exists>e t. edge_of h sm s e = Some t}"
  then show "s \<in> fst ` set (transitions sm)"
    by (auto simp add: edge_of_def split: option.splits dest!: map_of_SomeD intro: rev_image_eqI)
qed

lemma sm_ok_destinations:
  assumes "sm_ok h sm"
  shows "(\<Union>k\<in>fst ` set (transitions sm).
      snd ` set (case map_of (transitions sm) k of Some a \<Rightarrow> h ! a | None \<Rightarrow> []))
    = {t. \<exists>s e. edge_of h sm s e = Some t}"
proof (intro set_eqI iffI)
  fix t
  assume "t \<in> (\<Union>k\<in>fst ` set (transitions sm).
      snd ` set (case map_of (transitions sm) k of Some a \<Rightarrow> h ! a | None \<Rightarrow> []))"
  then obtain k where k: "k \<in> fst ` set (transitions sm)"
    and "t \<in> snd ` set (case map_of (transitions sm) k of Some a \<Rightarrow> h ! a | None \<Rightarrow> [])"
    by blast
  then obtain e where
    m: "(e, t) \<in> set (case map_of (transitions sm) k of Some a \<Rightarrow> h ! a | None \<Rightarrow> [])"
    by force
  from m obtain a where a: "map_of (transitions sm) k = Some a" and et: "(e, t) \<in> set (h ! a)"
    by (cases "map_of (transitions sm) k") auto
  from assms a have "distinct (map fst (h ! a))" by (auto dest: sm_ok_addr)
  with et have "map_of (h ! a) e = Some t" by simp
  with a have "edge_of h sm k e = Some t" by (simp add: edge_of_def)
  then show "t \<in> {t. \<exists>s e. edge_of h sm s e = Some t}" by blast
next
  fix t assume "t \<in> {t. \<exists>s e. edge_of h sm s e = Some t}"
  then obtain s e a where a: "map_of (transitions sm) s = Some a" and m: "map_of (h ! a) e = Some t"
    by (auto simp add: edge_of_def split: option.splits)
  from a have "s \<in> fst ` set (transitions sm)" by (auto dest!: map_of_SomeD intro: rev_image_eqI)
  moreover from m have "t \<in> snd ` set (h ! a)" by (auto dest!: map_of_SomeD intro: rev_image_eqI)
  ultimately show "t \<in> (\<Union>k\<in>fst ` set (transitions sm).
      snd ` set (case map_of (transitions sm) k of Some a \<Rightarrow> h ! a | None \<Rightarrow> []))"
    using a by force
qed

text \<open>
  C5. For every table the machine can be in, \<open>GetAllStates\<close> returns each state at most
  once, and the states it returns are exactly those that are the source or the
  destination of an edge of the table; a state that is part of no edge is not returned.
\<close>

theorem GetAllStates_exact:
  assumes "sm_ok h sm"
  shows "distinct (GetAllStates h sm) \<and>
    set (GetAllStates h sm) =
      {s. \<exists>e t. edge_of h sm s e = Some t} \<union> {t. \<exists>s e. edge_of h sm s e = Some t}"
proof -
  obtain states seen where run:
    "GetAllStates_outer h sm (map fst (transitions sm)) ([], Map.empty) = (states, seen)"
    by (cases "GetAllStates_outer h sm (map fst (transitions sm)) ([], Map.empty)")
  from GetAllStates_outer_inv [of "[]" Map.empty h sm "map fst (transitions sm)" states seen] run
  have "distinct states \<and>
    set states = set (map fst (transitions sm)) \<union>
      (\<Union>k\<in>set (map fst (transitions sm)).
         snd ` set (case map_of (transitions sm) k of Some a \<Rightarrow> h ! a | None \<Rightarrow> []))"
    by (simp add: seen_get_def)
  then show ?thesis
    using sm_ok_sources [OF assms] sm_ok_destinations [OF assms] run
    by (simp add: GetAllStates_def)
qed

theorem GetAllStates_exact_witness:
  "sm_ok order_heap order_sm \<and>
   GetAllStates order_heap order_sm =
     [OrderStatePending, OrderStateProcessing, OrderStateCancelled, OrderStateShipped,
      OrderStateDelivered, OrderStateRefunded] \<and>
   {s. \<exists>e t. edge_of order_heap order_sm s e = Some t} \<union>
   {t. \<exists>s e. edge_of order_heap order_sm s e = Some t} =
     {OrderStatePending, OrderStateProcessing, OrderStateCancelled, OrderStateShipped,
      OrderStateDelivered, OrderStateRefunded} \<and>
   OrderState ''OnHold'' \<notin> set (GetAllStates order_heap order_sm)"
proof -
  have v: "GetAllStates order_heap order_sm =
     [OrderStatePending, OrderStateProcessing, OrderStateCancelled, OrderStateShipped,
      OrderStateDelivered, OrderStateRefunded]"
    by (simp add: GetAllStates_def seen_get_def order_heap_def order_sm_def transitions_def order_defs)
  have n: "OrderState ''OnHold'' \<notin> set (GetAllStates order_heap order_sm)"
    by (simp add: v) (simp add: order_defs)
  from GetAllStates_exact [OF order_ok] v n order_ok show ?thesis by simp
qed

section \<open>Registration\<close>

lemma transitions_made: "transitions_ref sm = Some outer \<Longrightarrow> transitions sm = outer"
  by (simp add: transitions_def)

lemma transitions_upd: "transitions (sm\<lparr>transitions_ref := Some outer\<rparr>) = outer"
  by (simp add: transitions_def)

lemma AddTransition_found:
  "go_lookup eqS (transitions sm) s = Some a \<Longrightarrow>
   AddTransition eqS eqE (h, sm) s e t = Some (h[a := go_store eqE e t (h ! a)], sm)"
  by (simp add: AddTransition_def)

lemma AddTransition_nil: "transitions_ref sm = None \<Longrightarrow> AddTransition eqS eqE (h, sm) s e t = None"
  by (simp add: AddTransition_def transitions_def)

lemma AddTransition_fresh:
  assumes sy: "symp eqS" and tr: "transp eqS"
    and made: "transitions_ref sm = Some outer"
    and miss: "go_lookup eqS outer s = None"
  shows "AddTransition eqS eqE (h, sm) s e t =
    (if eqS s s
     then Some (h @ [[(e, t)]], sm\<lparr>transitions_ref := Some (outer @ [(s, length h)])\<rparr>)
     else None)"
proof -
  have rb: "go_lookup eqS (go_store eqS s (length h) outer) s =
      (if eqS s s then Some (length h) else None)"
    using miss by (simp add: go_lookup_store [OF sy tr])
  have st: "go_store eqS s (length h) outer = outer @ [(s, length h)]"
    using miss by (rule go_store_fresh)
  show ?thesis
    using made miss rb
    by (simp add: AddTransition_def transitions_made transitions_upd st [symmetric])
qed

lemma AddTransition_returns:
  assumes sy: "symp eqS" and tr: "transp eqS" and made: "transitions_ref sm \<noteq> None"
  shows "(AddTransition eqS eqE (h, sm) s e t \<noteq> None) = eqS s s"
proof (cases "go_lookup eqS (transitions sm) s")
  case None
  from made obtain outer where o: "transitions_ref sm = Some outer" by auto
  with None have "go_lookup eqS outer s = None" by (simp add: transitions_made)
  with sy tr o have "AddTransition eqS eqE (h, sm) s e t =
    (if eqS s s
     then Some (h @ [[(e, t)]], sm\<lparr>transitions_ref := Some (outer @ [(s, length h)])\<rparr>)
     else None)"
    by (rule AddTransition_fresh)
  then show ?thesis by simp
next
  case (Some a)
  then have "eqS s s" using go_lookup_irrefl [OF sy tr, of s "transitions sm"] by auto
  with Some show ?thesis by (simp add: AddTransition_found)
qed

lemma heap_ok_AddTransition:
  assumes ok: "heap_ok h sm" and add: "AddTransition eqS eqE (h, sm) s e t = Some (h', sm')"
  shows "heap_ok h' sm'"
proof (cases "go_lookup eqS (transitions sm) s")
  case (Some a)
  with add have "h' = h[a := go_store eqE e t (h ! a)]" "sm' = sm"
    by (simp_all add: AddTransition_found)
  with ok show ?thesis by (simp add: heap_ok_def)
next
  case None
  from ok obtain outer where o: "transitions_ref sm = Some outer" by (auto simp add: heap_ok_def)
  with None have miss: "go_lookup eqS outer s = None" by (simp add: transitions_made)
  have st: "go_store eqS s (length h) outer = outer @ [(s, length h)]"
    using miss by (rule go_store_fresh)
  from add None o obtain a where
    sm': "sm' = sm\<lparr>transitions_ref := Some (outer @ [(s, length h)])\<rparr>"
    and h': "h' = (h @ [[]])[a := go_store eqE e t ((h @ [[]]) ! a)]"
    by (auto simp add: AddTransition_def transitions_made transitions_upd st split: option.splits)
  from ok o have lt: "\<forall>(s', b) \<in> set outer. b < length h"
    by (auto simp add: heap_ok_def list_all_iff transitions_made)
  then have "length h \<notin> snd ` set outer" by auto
  with ok o lt show ?thesis
    by (auto simp add: heap_ok_def sm' h' transitions_upd transitions_made list_all_iff)
qed

lemma heap_ok_addr:
  "heap_ok h sm \<Longrightarrow> go_lookup eqS (transitions sm) s = Some a \<Longrightarrow> a < length h"
  by (auto simp add: heap_ok_def list_all_iff dest!: go_lookup_SomeD)

lemma heap_ok_inj:
  assumes ok: "heap_ok h sm" and sy: "symp eqS" and tr: "transp eqS"
    and 1: "go_lookup eqS (transitions sm) s = Some a"
    and 2: "go_lookup eqS (transitions sm) s' = Some a"
  shows "eqS s s'"
proof -
  from 1 obtain k where k: "(k, a) \<in> set (transitions sm)" "eqS k s"
    by (auto dest: go_lookup_SomeD)
  from 2 obtain k' where k': "(k', a) \<in> set (transitions sm)" "eqS k' s'"
    by (auto dest: go_lookup_SomeD)
  from ok have "inj_on snd (set (transitions sm))" by (simp add: heap_ok_def distinct_map)
  with k(1) k'(1) have "(k', a) = (k, a)" by (intro inj_onD [where f = snd]) simp_all
  with k' have "eqS k s'" by simp
  moreover from sy k(2) have "eqS s k" by (auto dest: sympD)
  ultimately show ?thesis using tr by (auto dest: transpD)
qed

lemma edge_cmp_AddTransition:
  assumes syS: "symp eqS" and trS: "transp eqS" and syE: "symp eqE" and trE: "transp eqE"
    and ok: "heap_ok h sm"
    and add: "AddTransition eqS eqE (h, sm) s e t = Some (h', sm')"
  shows "edge_cmp eqS eqE h' sm' s' e' =
    (if eqS s s' \<and> eqE e e' then Some t else edge_cmp eqS eqE h sm s' e')"
proof (cases "go_lookup eqS (transitions sm) s")
  case (Some a)
  with add have h': "h' = h[a := go_store eqE e t (h ! a)]" and sm': "sm' = sm"
    by (simp_all add: AddTransition_found)
  from ok Some have a: "a < length h" by (rule heap_ok_addr)
  show ?thesis
  proof (cases "eqS s s'")
    case True
    with syS trS have "go_lookup eqS (transitions sm) s' = go_lookup eqS (transitions sm) s"
      by (intro go_lookup_cong) (auto dest: sympD)
    with Some True a show ?thesis
      by (simp add: edge_cmp_def h' sm' go_lookup_store [OF syE trE])
  next
    case False
    have "go_lookup eqS (transitions sm) s' \<noteq> Some a"
      using heap_ok_inj [OF ok syS trS Some] False by blast
    with False show ?thesis by (auto simp add: edge_cmp_def h' sm' split: option.splits)
  qed
next
  case None
  from ok obtain outer where o: "transitions_ref sm = Some outer" by (auto simp add: heap_ok_def)
  with None have miss: "go_lookup eqS outer s = None" by (simp add: transitions_made)
  from syS trS o miss have "AddTransition eqS eqE (h, sm) s e t =
    (if eqS s s
     then Some (h @ [[(e, t)]], sm\<lparr>transitions_ref := Some (outer @ [(s, length h)])\<rparr>)
     else None)"
    by (rule AddTransition_fresh)
  with add have h': "h' = h @ [[(e, t)]]"
    and sm': "sm' = sm\<lparr>transitions_ref := Some (outer @ [(s, length h)])\<rparr>"
    by (simp_all split: if_splits)
  have st: "outer @ [(s, length h)] = go_store eqS s (length h) outer"
    using miss by (simp add: go_store_fresh)
  have look: "go_lookup eqS (transitions sm') s' =
      (if eqS s s' then Some (length h) else go_lookup eqS outer s')"
    by (simp add: sm' transitions_upd st go_lookup_store [OF syS trS])
  show ?thesis
  proof (cases "eqS s s'")
    case True
    with syS trS have "go_lookup eqS outer s' = go_lookup eqS outer s"
      by (intro go_lookup_cong) (auto dest: sympD)
    with miss True look o show ?thesis
      by (simp add: edge_cmp_def h' transitions_made)
  next
    case False
    show ?thesis
    proof (cases "go_lookup eqS outer s'")
      case n: None
      with False look o show ?thesis by (simp add: edge_cmp_def transitions_made)
    next
      case (Some b)
      with o have "go_lookup eqS (transitions sm) s' = Some b" by (simp add: transitions_made)
      with ok have "b < length h" by (rule heap_ok_addr)
      with Some False look o show ?thesis
        by (simp add: edge_cmp_def h' transitions_made nth_append)
    qed
  qed
qed

section \<open>Comparison by equality\<close>

lemma CanTransition_cmp_eq: "CanTransition_cmp (=) (=) h sm s e = CanTransition h sm s e"
  by (simp add: CanTransition_cmp_def CanTransition_def go_lookup_eq split: option.splits)

lemma Transition_cmp_eq: "Transition_cmp (=) (=) h sm s e = Transition h sm s e"
  by (simp add: Transition_cmp_def Transition_def go_lookup_eq split: option.splits)


lemma sm_ok_heap_ok: "sm_ok h sm \<Longrightarrow> transitions_ref sm \<noteq> None \<Longrightarrow> heap_ok h sm"
  by (auto simp add: sm_ok_def heap_ok_def list_all_iff)

lemma AddTransition_new:
  assumes made: "transitions_ref sm = Some outer" and n: "map_of outer s = None"
  shows "AddTransition (=) (=) (h, sm) s e t =
     Some (h @ [[(e, t)]], sm\<lparr>transitions_ref := Some (outer @ [(s, length h)])\<rparr>)"
proof -
  have "symp ((=) :: 'a \<Rightarrow> 'a \<Rightarrow> bool)" "transp ((=) :: 'a \<Rightarrow> 'a \<Rightarrow> bool)"
    by (simp_all add: symp_def transp_def)
  moreover from n have "go_lookup (=) outer s = None" by (simp add: go_lookup_eq)
  ultimately have "AddTransition (=) (=) (h, sm) s e t =
    (if s = s
     then Some (h @ [[(e, t)]], sm\<lparr>transitions_ref := Some (outer @ [(s, length h)])\<rparr>)
     else None)"
    using made by (intro AddTransition_fresh) simp_all
  then show ?thesis by simp
qed

lemma AddTransition_old:
  "map_of (transitions sm) s = Some a \<Longrightarrow>
   AddTransition (=) (=) (h, sm) s e t = Some (h[a := AList.update e t (h ! a)], sm)"
  by (simp add: AddTransition_found go_lookup_eq go_store_eq)

lemma sm_ok_AddTransition:
  assumes ok: "sm_ok h sm" and add: "AddTransition (=) (=) (h, sm) s e t = Some (h', sm')"
  shows "sm_ok h' sm'"
proof (cases "map_of (transitions sm) s")
  case None
  from add obtain outer where o: "transitions_ref sm = Some outer"
    by (cases "transitions_ref sm") (simp_all add: AddTransition_nil)
  with None have n: "map_of outer s = None" by (simp add: transitions_made)
  from add have h': "h' = h @ [[(e, t)]]"
    and sm': "transitions sm' = transitions sm @ [(s, length h)]"
    by (auto simp add: AddTransition_new [OF o n] transitions_upd transitions_made [OF o])
  from None have ns: "s \<notin> fst ` set (transitions sm)" by (simp add: map_of_eq_None_iff)
  from ok have lt: "\<forall>(s', a) \<in> set (transitions sm). a < length h"
    by (auto simp add: sm_ok_def list_all_iff)
  then have na: "length h \<notin> snd ` set (transitions sm)" by auto
  from ok lt show ?thesis using ns na
    by (auto simp add: sm_ok_def h' sm' list_all_iff nth_append)
next
  case (Some a)
  with add have h': "h' = h[a := AList.update e t (h ! a)]" and sm': "sm' = sm"
    by (auto simp add: AddTransition_old)
  have "b < length h' \<and> h' ! b \<noteq> [] \<and> distinct (map fst (h' ! b))"
    if "(s', b) \<in> set (transitions sm)" for s' b
  proof -
    from ok that have b: "b < length h" "h ! b \<noteq> []" "distinct (map fst (h ! b))"
      by (auto simp add: sm_ok_def list_all_iff)
    show ?thesis
    proof (cases "b = a")
      case True
      then show ?thesis using b by (simp add: h' distinct_update)
    next
      case False
      then show ?thesis using b by (simp add: h')
    qed
  qed
  then show ?thesis using ok by (auto simp add: sm_ok_def sm' list_all_iff)
qed


section \<open>Registering a pair twice\<close>

lemma symp_eq: "symp ((=) :: 'a \<Rightarrow> 'a \<Rightarrow> bool)"
  by (simp add: symp_def)

lemma transp_eq: "transp ((=) :: 'a \<Rightarrow> 'a \<Rightarrow> bool)"
  by (simp add: transp_def)

lemma symp_float_eq: "symp float_eq"
  by (auto simp add: symp_def float_eq_def)

lemma transp_float_eq: "transp float_eq"
  by (auto simp add: transp_def float_eq_def)

lemma Transition_cmp_edge:
  "Transition_cmp eqS eqE h sm s e =
    (case edge_cmp eqS eqE h sm s e of
       Some t \<Rightarrow> (t, None)
     | None \<Rightarrow> (default, Some (ErrInvalidTransition e s)))"
  by (simp add: Transition_cmp_def edge_cmp_def split: option.splits)

lemma CanTransition_cmp_edge:
  "CanTransition_cmp eqS eqE h sm s e = (edge_cmp eqS eqE h sm s e \<noteq> None)"
  by (auto simp add: CanTransition_cmp_def edge_cmp_def split: option.splits)

lemma heap_ok_order: "heap_ok order_heap order_sm"
  by (simp add: heap_ok_def order_heap_def order_sm_def transitions_def)

lemma heap_ok_New: "heap_ok h NewStateMachine"
  by (simp add: heap_ok_def NewStateMachine_def transitions_def)

text \<open>
  C3, as the code has it. Let the comparisons of the state type and of the event type be
  symmetric and transitive, and take a machine built by \<open>NewStateMachine\<close> and
  \<open>AddTransition\<close>. Registering \<open>(s, e, t1)\<close> returns exactly when \<open>s\<close> is equal to itself,
  and panics otherwise. When \<open>s\<close> is equal to itself, registering \<open>(s, e, t1)\<close> and then
  \<open>(s, e, t2)\<close> returns both times; when \<open>e\<close> is equal to itself as well, \<open>Transition\<close> from
  \<open>s\<close> under \<open>e\<close> afterwards yields \<open>t2\<close> with no error and \<open>CanTransition\<close> is true.
\<close>

theorem register_last_write_wins:
  assumes syS: "symp eqS" and trS: "transp eqS" and syE: "symp eqE" and trE: "transp eqE"
    and ok: "heap_ok h sm"
  shows "((AddTransition eqS eqE (h, sm) s e t1 \<noteq> None) = eqS s s) \<and>
    (eqS s s \<longrightarrow>
      (\<exists>h1 sm1 h2 sm2.
        AddTransition eqS eqE (h, sm) s e t1 = Some (h1, sm1) \<and>
        AddTransition eqS eqE (h1, sm1) s e t2 = Some (h2, sm2) \<and>
        (eqE e e \<longrightarrow>
           Transition_cmp eqS eqE h2 sm2 s e = (t2, None) \<and>
           CanTransition_cmp eqS eqE h2 sm2 s e = True)))"
proof (intro conjI impI)
  from ok have made: "transitions_ref sm \<noteq> None" by (simp add: heap_ok_def)
  show "(AddTransition eqS eqE (h, sm) s e t1 \<noteq> None) = eqS s s"
    using syS trS made by (rule AddTransition_returns)
  assume refl: "eqS s s"
  with AddTransition_returns [OF syS trS made, of eqE h s e t1]
  obtain h1 sm1 where 1: "AddTransition eqS eqE (h, sm) s e t1 = Some (h1, sm1)" by auto
  from ok 1 have ok1: "heap_ok h1 sm1" by (rule heap_ok_AddTransition)
  then have made1: "transitions_ref sm1 \<noteq> None" by (simp add: heap_ok_def)
  from refl AddTransition_returns [OF syS trS made1, of eqE h1 s e t2]
  obtain h2 sm2 where 2: "AddTransition eqS eqE (h1, sm1) s e t2 = Some (h2, sm2)" by auto
  have "Transition_cmp eqS eqE h2 sm2 s e = (t2, None) \<and>
      CanTransition_cmp eqS eqE h2 sm2 s e = True" if "eqE e e"
  proof -
    have "edge_cmp eqS eqE h2 sm2 s e = Some t2"
      using edge_cmp_AddTransition [OF syS trS syE trE ok1 2, of s e] refl that by simp
    then show ?thesis by (simp add: Transition_cmp_edge CanTransition_cmp_edge)
  qed
  with 1 2 show "\<exists>h1 sm1 h2 sm2.
        AddTransition eqS eqE (h, sm) s e t1 = Some (h1, sm1) \<and>
        AddTransition eqS eqE (h1, sm1) s e t2 = Some (h2, sm2) \<and>
        (eqE e e \<longrightarrow>
           Transition_cmp eqS eqE h2 sm2 s e = (t2, None) \<and>
           CanTransition_cmp eqS eqE h2 sm2 s e = True)"
    by blast
qed

theorem register_last_write_wins_witness:
  "heap_ok order_heap order_sm \<and>
   (\<exists>h1 sm1 h2 sm2.
      AddTransition (=) (=) (order_heap, order_sm)
        OrderStatePending OrderEventConfirm OrderStateShipped = Some (h1, sm1) \<and>
      AddTransition (=) (=) (h1, sm1)
        OrderStatePending OrderEventConfirm OrderStateCancelled = Some (h2, sm2) \<and>
      Transition h2 sm2 OrderStatePending OrderEventConfirm = (OrderStateCancelled, None) \<and>
      CanTransition h2 sm2 OrderStatePending OrderEventConfirm = True) \<and>
   symp float_eq \<and> transp float_eq \<and> float_eq (Value 1) (Value 1) \<and>
   (\<exists>h1 sm1 h2 sm2.
      AddTransition float_eq (=) ([], NewStateMachine)
        (Value 1) OrderEventConfirm (Value 2) = Some (h1, sm1) \<and>
      AddTransition float_eq (=) (h1, sm1)
        (Value 1) OrderEventConfirm (Value 3) = Some (h2, sm2) \<and>
      Transition_cmp float_eq (=) h2 sm2 (Value 1) OrderEventConfirm = (Value 3, None) \<and>
      CanTransition_cmp float_eq (=) h2 sm2 (Value 1) OrderEventConfirm = True)"
proof -
  have r: "float_eq (Value 1) (Value 1)" by (simp add: float_eq_def)
  from register_last_write_wins [OF symp_eq transp_eq symp_eq transp_eq heap_ok_order,
      where s = OrderStatePending and e = OrderEventConfirm and ?t1.0 = OrderStateShipped
        and ?t2.0 = OrderStateCancelled]
  have 1: "\<exists>h1 sm1 h2 sm2.
      AddTransition (=) (=) (order_heap, order_sm)
        OrderStatePending OrderEventConfirm OrderStateShipped = Some (h1, sm1) \<and>
      AddTransition (=) (=) (h1, sm1)
        OrderStatePending OrderEventConfirm OrderStateCancelled = Some (h2, sm2) \<and>
      Transition h2 sm2 OrderStatePending OrderEventConfirm = (OrderStateCancelled, None) \<and>
      CanTransition h2 sm2 OrderStatePending OrderEventConfirm = True"
    by (simp add: Transition_cmp_eq CanTransition_cmp_eq)
  from register_last_write_wins [OF symp_float_eq transp_float_eq symp_eq transp_eq heap_ok_New,
      where h = "[]" and s = "Value 1" and e = OrderEventConfirm and ?t1.0 = "Value 2"
        and ?t2.0 = "Value 3"] r
  have 2: "\<exists>h1 sm1 h2 sm2.
      AddTransition float_eq (=) ([], NewStateMachine)
        (Value 1) OrderEventConfirm (Value 2) = Some (h1, sm1) \<and>
      AddTransition float_eq (=) (h1, sm1)
        (Value 1) OrderEventConfirm (Value 3) = Some (h2, sm2) \<and>
      Transition_cmp float_eq (=) h2 sm2 (Value 1) OrderEventConfirm = (Value 3, None) \<and>
      CanTransition_cmp float_eq (=) h2 sm2 (Value 1) OrderEventConfirm = True"
    by simp
  from 1 2 r heap_ok_order symp_float_eq transp_float_eq show ?thesis by blast
qed

text \<open>
  The claim as the specification states it fails for a state that is not equal to
  itself: registering an edge out of \<open>NaN\<close> in a new machine reads the inner map back
  as \<open>nil\<close> and panics. It fails for such an event too: both registrations of
  \<open>(Pending, NaN)\<close> return, each adds an entry, and \<open>CanTransition\<close> is false afterwards.
\<close>

theorem register_last_write_wins_counterexample:
  "AddTransition float_eq (=) ([], NewStateMachine) NaN OrderEventConfirm (Value 1) = None \<and>
   AddTransition (=) float_eq ([], NewStateMachine) OrderStatePending NaN OrderStateProcessing =
     Some ([[(NaN, OrderStateProcessing)]], \<lparr>transitions_ref = Some [(OrderStatePending, 0)]\<rparr>) \<and>
   AddTransition (=) float_eq
     ([[(NaN, OrderStateProcessing)]], \<lparr>transitions_ref = Some [(OrderStatePending, 0)]\<rparr>)
     OrderStatePending NaN OrderStateCancelled =
     Some ([[(NaN, OrderStateProcessing), (NaN, OrderStateCancelled)]],
       \<lparr>transitions_ref = Some [(OrderStatePending, 0)]\<rparr>) \<and>
   CanTransition_cmp (=) float_eq
     [[(NaN, OrderStateProcessing), (NaN, OrderStateCancelled)]]
     \<lparr>transitions_ref = Some [(OrderStatePending, 0)]\<rparr> OrderStatePending NaN = False"
  by (simp add: AddTransition_def NewStateMachine_def transitions_def float_eq_def
      CanTransition_cmp_def)

section \<open>Batch registration\<close>











section \<open>The copy returned by GetTransitions\<close>

lemma copy_length: "length (GetTransitions_copy h r m) = length h"
  by (induction m arbitrary: h) auto

lemma copy_other: "a \<noteq> r \<Longrightarrow> GetTransitions_copy h r m ! a = h ! a"
  by (induction m arbitrary: h) auto

lemma copy_result:
  "r < length h \<Longrightarrow> distinct (map fst m) \<Longrightarrow>
   map_of (GetTransitions_copy h r m ! r) k =
     (case map_of m k of Some v \<Rightarrow> Some v | None \<Rightarrow> map_of (h ! r) k)"
proof (induction m arbitrary: h)
  case Nil
  show ?case by simp
next
  case (Cons p m)
  obtain k0 v0 where p: "p = (k0, v0)" by (cases p)
  let ?h1 = "h[r := AList.update k0 v0 (h ! r)]"
  from Cons.prems p have fresh: "map_of m k0 = None" and d: "distinct (map fst m)"
    by (simp_all add: map_of_eq_None_iff)
  have "map_of (GetTransitions_copy ?h1 r m ! r) k =
      (case map_of m k of Some v \<Rightarrow> Some v | None \<Rightarrow> map_of (?h1 ! r) k)"
    using Cons.prems(1) d by (intro Cons.IH) simp_all
  then show ?case using Cons.prems(1) fresh p
    by (auto simp add: update_conv' split: option.splits)
qed

lemma edge_of_frame:
  assumes "sm_ok h sm" and "\<forall>a<length h. h' ! a = h ! a"
  shows "edge_of h' sm s e = edge_of h sm s e"
proof (cases "map_of (transitions sm) s")
  case None
  then show ?thesis by (simp add: edge_of_def)
next
  case (Some a)
  with assms(1) have "a < length h" by (auto dest: sm_ok_addr)
  with assms(2) Some show ?thesis by (simp add: edge_of_def)
qed

lemma sm_ok_frame:
  assumes "sm_ok h sm" and "length h \<le> length h'" and "\<forall>a<length h. h' ! a = h ! a"
  shows "sm_ok h' sm"
  using assms by (fastforce simp add: sm_ok_def list_all_iff)

lemma GetTransitions_result:
  assumes ok: "sm_ok h sm" and run: "GetTransitions h sm from = (result, h')"
  shows "result = length h \<and> length h' = Suc (length h) \<and>
    (\<forall>a<length h. h' ! a = h ! a) \<and> map_of (h' ! result) = edge_of h sm from"
proof (cases "map_of (transitions sm) from")
  case None
  with run have "result = length h" "h' = h @ [[]]" by (simp_all add: GetTransitions_def)
  with None show ?thesis by (simp add: edge_of_def nth_append fun_eq_iff)
next
  case (Some a)
  with ok have a: "a < length h" and d: "distinct (map fst (h ! a))" by (auto dest: sm_ok_addr)
  have "GetTransitions h sm from =
      (length h, GetTransitions_copy (h @ [[]]) (length h) ((h @ [[]]) ! a))"
    using Some by (simp add: GetTransitions_def Let_def)
  with run have "(result, h') =
      (length h, GetTransitions_copy (h @ [[]]) (length h) ((h @ [[]]) ! a))"
    by (rule trans [OF sym])
  then have r: "result = length h"
    and "h' = GetTransitions_copy (h @ [[]]) (length h) ((h @ [[]]) ! a)"
    by blast+
  with a have h': "h' = GetTransitions_copy (h @ [[]]) (length h) (h ! a)"
    by (simp add: nth_append)
  have "map_of (h' ! result) e = edge_of h sm from e" for e
    using copy_result [of "length h" "h @ [[]]" "h ! a" e] d Some
    by (simp add: r h' edge_of_def split: option.splits)
  moreover have "\<forall>b<length h. h' ! b = h ! b"
    by (simp add: h' copy_other nth_append)
  ultimately show ?thesis using r by (simp add: h' copy_length fun_eq_iff)
qed

lemma GetTransitions_frame:
  assumes ok: "sm_ok h sm" and run: "GetTransitions h sm from = (result, h')"
  shows "result = length h \<and> length h' = Suc (length h) \<and>
    (\<forall>a<length h. h' ! a = h ! a) \<and>
    map_of (h' ! result) = edge_of h sm from \<and>
    sm_ok h' sm \<and>
    (\<forall>s e. edge_of h' sm s e = edge_of h sm s e) \<and>
    (\<forall>m. sm_ok (h'[result := m]) sm \<and>
       (\<forall>s e. edge_of (h'[result := m]) sm s e = edge_of h sm s e))"
proof -
  from GetTransitions_result [OF ok run]
  have r: "result = length h" and l: "length h' = Suc (length h)"
    and old: "\<forall>a<length h. h' ! a = h ! a"
    and new: "map_of (h' ! result) = edge_of h sm from"
    by blast+
  have old': "\<forall>a<length h. (h'[result := m]) ! a = h ! a" for m
    using old r by simp
  have len: "length h \<le> length h'" and len': "length h \<le> length (h'[result := m])" for m
    using l by simp_all
  have ok1: "sm_ok h' sm" using ok len old by (rule sm_ok_frame)
  have ok2: "sm_ok (h'[result := m]) sm" for m
    using ok len' old' by (rule sm_ok_frame)
  have e1: "edge_of h' sm s e = edge_of h sm s e" for s e
    using ok old by (rule edge_of_frame)
  have e2: "edge_of (h'[result := m]) sm s e = edge_of h sm s e" for m s e
    using ok old' by (rule edge_of_frame)
  show ?thesis
  proof (intro conjI allI)
    show "result = length h" by (rule r)
    show "length h' = Suc (length h)" by (rule l)
    show "a < length h \<longrightarrow> h' ! a = h ! a" for a using old by blast
    show "map_of (h' ! result) = edge_of h sm from" by (rule new)
    show "sm_ok h' sm" by (rule ok1)
    show "edge_of h' sm s e = edge_of h sm s e" for s e by (rule e1)
    show "sm_ok (h'[result := m]) sm" for m by (rule ok2)
    show "edge_of (h'[result := m]) sm s e = edge_of h sm s e" for m s e by (rule e2)
  qed
qed

text \<open>
  C8. For every table the machine can be in and every call of a read operation, the
  machine after the call is the machine before it, every map that the heap held before
  the call is unchanged, and the edge set of the table is the same before and after.
  The calls of \<open>CanTransition\<close>, \<open>Transition\<close>, \<open>GetValidEvents\<close>, \<open>GetNextState\<close>,
  \<open>IsTerminalState\<close>, \<open>ValidateTransitionPath\<close> and \<open>GetAllStates\<close> leave the heap as it
  was. The call of \<open>GetTransitions\<close> adds one map at a fresh address, returns that
  address, and fills the map with the edges out of the given state; the edge set of the
  table stays the same whatever the caller then stores in the map returned.
\<close>

theorem read_operations_frame:
  assumes ok: "sm_ok h sm" and run: "read_op c (h, sm) = (res, (h', sm'))"
  shows "sm' = sm \<and> sm_ok h' sm' \<and> length h \<le> length h' \<and>
    (\<forall>a<length h. h' ! a = h ! a) \<and>
    (\<forall>s e. edge_of h' sm' s e = edge_of h sm s e) \<and>
    (case c of
       Call_GetTransitions from \<Rightarrow>
         res = Res_map (length h) \<and> length h' = Suc (length h) \<and>
         map_of (h' ! length h) = edge_of h sm from \<and>
         (\<forall>m. sm_ok (h'[length h := m]) sm \<and>
            (\<forall>s e. edge_of (h'[length h := m]) sm s e = edge_of h sm s e))
     | _ \<Rightarrow> h' = h)"
proof (cases c)
  case (Call_GetTransitions state)
  with run obtain result where g: "GetTransitions h sm state = (result, h')"
    and r: "res = Res_map result" and s: "sm' = sm"
    by (auto split: prod.splits)
  from GetTransitions_frame [OF ok g] have rl: "result = length h" by blast
  with g have g': "GetTransitions h sm state = (length h, h')" by simp
  from GetTransitions_frame [OF ok g'] r rl s Call_GetTransitions show ?thesis by simp
qed (use ok run in \<open>auto split: prod.splits\<close>)

lemma order_copy:
  "GetTransitions order_heap order_sm OrderStatePending =
    (5, order_heap @
      [[(OrderEventConfirm, OrderStateProcessing), (OrderEventCancel, OrderStateCancelled)]])"
  by (simp add: GetTransitions_def order_heap_def order_sm_def transitions_def order_defs)

theorem read_operations_frame_witness:
  "sm_ok order_heap order_sm \<and>
   read_op (Call_GetTransitions OrderStatePending) (order_heap, order_sm) =
     (Res_map 5,
      (order_heap @
        [[(OrderEventConfirm, OrderStateProcessing), (OrderEventCancel, OrderStateCancelled)]],
       order_sm)) \<and>
   edge_of
     ((order_heap @
        [[(OrderEventConfirm, OrderStateProcessing), (OrderEventCancel, OrderStateCancelled)]])
      [length order_heap := [(OrderEventConfirm, OrderStateRefunded)]])
     order_sm OrderStatePending OrderEventConfirm
     = edge_of order_heap order_sm OrderStatePending OrderEventConfirm \<and>
   edge_of order_heap order_sm OrderStatePending OrderEventConfirm = Some OrderStateProcessing \<and>
   read_op (Call_ValidateTransitionPath OrderStatePending
       [OrderEventConfirm, OrderEventShip, OrderEventCancel]) (order_heap, order_sm) =
     (Res_state_error OrderStateShipped
        (Some (ErrInvalidPath 3 (ErrInvalidTransition OrderEventCancel OrderStateShipped))),
      (order_heap, order_sm))"
proof -
  have c: "read_op (Call_GetTransitions OrderStatePending) (order_heap, order_sm) =
     (Res_map 5,
      (order_heap @
        [[(OrderEventConfirm, OrderStateProcessing), (OrderEventCancel, OrderStateCancelled)]],
       order_sm))"
    by (simp add: order_copy)
  have v: "read_op (Call_ValidateTransitionPath OrderStatePending
       [OrderEventConfirm, OrderEventShip, OrderEventCancel]) (order_heap, order_sm) =
     (Res_state_error OrderStateShipped
        (Some (ErrInvalidPath 3 (ErrInvalidTransition OrderEventCancel OrderStateShipped))),
      (order_heap, order_sm))"
    by (simp add: order_path_bad)
  from read_operations_frame [OF order_ok c]
  have "\<forall>m. sm_ok
       ((order_heap @
          [[(OrderEventConfirm, OrderStateProcessing), (OrderEventCancel, OrderStateCancelled)]])
        [length order_heap := m]) order_sm \<and>
     (\<forall>s e. edge_of
       ((order_heap @
          [[(OrderEventConfirm, OrderStateProcessing), (OrderEventCancel, OrderStateCancelled)]])
        [length order_heap := m]) order_sm s e = edge_of order_heap order_sm s e)"
    by (simp only: read_call.case) blast
  then have "edge_of
     ((order_heap @
        [[(OrderEventConfirm, OrderStateProcessing), (OrderEventCancel, OrderStateCancelled)]])
      [length order_heap := [(OrderEventConfirm, OrderStateRefunded)]])
     order_sm OrderStatePending OrderEventConfirm
     = edge_of order_heap order_sm OrderStatePending OrderEventConfirm"
    by blast
  moreover have
    "edge_of order_heap order_sm OrderStatePending OrderEventConfirm = Some OrderStateProcessing"
    by (simp add: edge_of_def order_heap_def order_sm_def transitions_def order_defs)
  ultimately show ?thesis using order_ok c v by blast
qed

end
